theory Spec2Isabelle
  imports Complex_Main "HOL-Library.Word" "HOL-Library.Log_Nat"
begin

section \<open>Numbers\<close>

text \<open>
  The program is TypeScript running in a browser. Every JavaScript number is a double.
  A number is modelled by the real number it denotes, and an operation on times (a sum,
  a difference, a product, a quotient) by the exact result rounded to the nearest
  double, ties to the even significand: \<open>binary64\<close> below, with 53 significant bits
  and the subnormal step \<open>2^-1074\<close>. The conversions between floats and 16-bit samples
  need no rounding: a \<open>Float32Array\<close> element times 32768 or 32767 and a 16-bit
  integer divided by 32768 are doubles, and \<open>0.5 + sample < 0\<close> holds in doubles
  exactly when \<open>sample < -0.5\<close>. \<open>NaN\<close>, the infinities (a result beyond the largest
  double) and the limits of memory are not modelled.
\<close>

text \<open>The binary exponent of a number that is not zero: \<open>2^e \<le> |x| < 2^(e+1)\<close>.\<close>

definition exponent :: "real \<Rightarrow> int" where
  "exponent x =
     (if 1 \<le> \<bar>x\<bar> then bitlen \<lfloor>\<bar>x\<bar>\<rfloor> - 1 else - bitlen (\<lceil>1 / \<bar>x\<bar>\<rceil> - 1))"

definition roundTiesToEven :: "real \<Rightarrow> int" where
  "roundTiesToEven y =
     (let n = \<lfloor>y\<rfloor>; r = y - of_int n
      in if r < 1 / 2 then n else if 1 / 2 < r then n + 1 else if even n then n else n + 1)"

definition binary64 :: "real \<Rightarrow> real" where
  "binary64 x =
     (if x = 0 then 0
      else (let e = max (exponent x - 52) (- 1074)
            in of_int (roundTiesToEven (x / 2 powi e)) * 2 powi e))"

section \<open>Audio buffers and the platform primitives the code calls\<close>

text \<open>Exceptions are values: every function that can throw returns \<open>js_error + 'a\<close>.\<close>

type_synonym byte = "8 word"

datatype js_error = RangeError | NotSupportedError

record audio_buffer =
  numberOfChannels :: nat
  length_frames :: nat
  sampleRate :: nat
  channelData :: "real list list"

text \<open>\<open>buffer.duration\<close> is the double \<open>length / sampleRate\<close>.\<close>

definition duration :: "audio_buffer \<Rightarrow> real" where
  "duration b = binary64 (real (length_frames b) / real (sampleRate b))"

text \<open>
  \<open>ctx.createBuffer(numberOfChannels, length, sampleRate)\<close> of the Web Audio API. The
  \<open>length\<close> argument is converted to an unsigned long (the fraction is dropped). The
  call throws \<open>NotSupportedError\<close> when an argument is zero; the upper ends of the
  nominal ranges are implementation limits and are not modelled (the program only asks
  for one channel at 24000 Hz). The new buffer is filled with zeros.
\<close>

definition createBuffer :: "nat \<Rightarrow> real \<Rightarrow> nat \<Rightarrow> js_error + audio_buffer" where
  "createBuffer numChannels len rate =
     (let n = nat \<lfloor>len\<rfloor> in
      if numChannels = 0 \<or> n = 0 \<or> rate = 0 then Inl NotSupportedError
      else Inr \<lparr>numberOfChannels = numChannels, length_frames = n, sampleRate = rate,
                channelData = replicate numChannels (replicate n 0)\<rparr>)"

text \<open>
  \<open>new Int16Array(data.buffer)\<close>: a view of the bytes as 16-bit signed integers in the
  byte order of the platform (little-endian). The constructor throws \<open>RangeError\<close> when
  the byte length is not a multiple of 2.
\<close>

fun int16_view :: "byte list \<Rightarrow> 16 word list" where
  "int16_view (lo # hi # rest) = word_of_nat (unat lo + 256 * unat hi) # int16_view rest"
| "int16_view _ = []"

definition Int16Array :: "byte list \<Rightarrow> js_error + 16 word list" where
  "Int16Array data = (if odd (length data) then Inl RangeError else Inr (int16_view data))"

section \<open>decodeAudioData\<close>

text \<open>
  The inner loop of \<open>decodeAudioData\<close> for one channel: \<open>i\<close> runs over the integers
  below \<open>frameCount\<close>, which is a quotient and need not be whole. A store past the end of
  a \<open>Float32Array\<close> is ignored by JavaScript, so the value that would have been stored
  there (read past the end of \<open>dataInt16\<close>) is never needed.
\<close>

definition decodeSample :: "16 word \<Rightarrow> real" where
  "decodeSample s = real_of_int (sint s) / 32768"

definition fillChannel :: "16 word list \<Rightarrow> nat \<Rightarrow> nat \<Rightarrow> real \<Rightarrow> real list \<Rightarrow> real list" where
  "fillChannel dataInt16 numChannels channel frameCount chData =
     fold (\<lambda>i cd. if i < length cd
                    then cd[i := decodeSample (dataInt16 ! (i * numChannels + channel))]
                    else cd)
          [0..<nat \<lceil>frameCount\<rceil>] chData"

text \<open>
  \<open>frameCount = dataInt16.length / numChannels\<close> is a floating-point division. With
  \<open>numChannels = 0\<close> the quotient is infinite or \<open>NaN\<close> in JavaScript and \<open>0\<close> here;
  \<open>createBuffer\<close> rejects zero channels whatever the length, so the difference is not
  observable. The \<open>ctx\<close> argument is the global audio context and only provides
  \<open>createBuffer\<close>.
\<close>

definition decodeAudioData :: "byte list \<Rightarrow> nat \<Rightarrow> nat \<Rightarrow> js_error + audio_buffer" where
  "decodeAudioData data rate numChannels =
     (case Int16Array data of
        Inl e \<Rightarrow> Inl e
      | Inr dataInt16 \<Rightarrow>
          (let frameCount = real (length dataInt16) / real numChannels in
           case createBuffer numChannels frameCount rate of
             Inl e \<Rightarrow> Inl e
           | Inr buffer \<Rightarrow>
               Inr (buffer\<lparr>channelData :=
                      map (\<lambda>channel. fillChannel dataInt16 numChannels channel frameCount
                                         (channelData buffer ! channel))
                          [0..<numChannels]\<rparr>)))"

section \<open>bufferToWav\<close>

text \<open>
  \<open>x | 0\<close> converts a number to a 32-bit signed integer: the fraction is dropped
  (towards zero) and the result wraps modulo \<open>2^32\<close>.
\<close>

definition trunc :: "real \<Rightarrow> int" where
  "trunc x = (if x < 0 then \<lceil>x\<rceil> else \<lfloor>x\<rfloor>)"

definition toInt32 :: "real \<Rightarrow> int" where
  "toInt32 x = sint (word_of_int (trunc x) :: 32 word)"

definition clamp :: "real \<Rightarrow> real" where
  "clamp x = max (-1) (min 1 x)"

text \<open>
  The two statements of the sample loop. In
  \<open>(0.5 + sample < 0 ? sample * 32768 : sample * 32767) | 0\<close> the addition binds tighter
  than the comparison, so the condition is \<open>(0.5 + sample) < 0\<close>.
\<close>

definition pcmSample :: "real \<Rightarrow> int" where
  "pcmSample x =
     (let sample = clamp x in
      toInt32 (if 0.5 + sample < 0 then sample * 32768 else sample * 32767))"

definition setUint16 :: "nat \<Rightarrow> byte list" where
  "setUint16 d = [word_of_nat (d mod 256), word_of_nat (d div 256 mod 256)]"

definition setUint32 :: "nat \<Rightarrow> byte list" where
  "setUint32 d = [word_of_nat (d mod 256), word_of_nat (d div 256 mod 256),
                  word_of_nat (d div 65536 mod 256), word_of_nat (d div 16777216 mod 256)]"

definition setInt16 :: "int \<Rightarrow> byte list" where
  "setInt16 v = (let w = (word_of_int v :: 16 word) in setUint16 (unat w))"

definition wavHeader :: "audio_buffer \<Rightarrow> byte list" where
  "wavHeader buffer =
     (let numOfChan = numberOfChannels buffer;
          len = length_frames buffer * numOfChan * 2 + 44
      in setUint32 0x46464952 @ setUint32 (len - 8) @ setUint32 0x45564157
       @ setUint32 0x20746d66 @ setUint32 16 @ setUint16 1 @ setUint16 numOfChan
       @ setUint32 (sampleRate buffer) @ setUint32 (sampleRate buffer * 2 * numOfChan)
       @ setUint16 (numOfChan * 2) @ setUint16 16
       @ setUint32 0x61746164 @ setUint32 (len - 40 - 4))"

definition wavPayload :: "audio_buffer \<Rightarrow> byte list" where
  "wavPayload buffer =
     concat (map (\<lambda>offset. concat (map (\<lambda>ch. setInt16 (pcmSample (ch ! offset)))
                                        (channelData buffer)))
                 [0..<length_frames buffer])"

definition bufferToWav :: "audio_buffer \<Rightarrow> byte list" where
  "bufferToWav buffer = wavHeader buffer @ wavPayload buffer"

section \<open>stitchAudio\<close>

text \<open>
  A segment as \<open>stitchAudio\<close> receives it. The source field \<open>audioB64\<close> holds the
  bytes in base64 and \<open>decode\<close> turns them into a \<open>Uint8Array\<close> with the platform's
  \<open>atob\<close>; the model carries the bytes themselves. (A string that is not base64 makes
  \<open>atob\<close> throw; that path is not modelled.)
\<close>

record segment =
  audioBytes :: "byte list"
  startTime :: real

text \<open>
  \<open>Promise.all(segments.map(async (segment) => ...))\<close>: every callback decodes its
  segment at 24000 Hz, one channel, and raises the shared \<open>maxDuration\<close>; the first
  callback that throws makes the whole \<open>Promise.all\<close> reject. JavaScript runs the
  callbacks one after another, so the shared variable is threaded through.
\<close>

fun decodeSegments :: "segment list \<Rightarrow> real \<Rightarrow> js_error + ((audio_buffer \<times> real) list \<times> real)" where
  "decodeSegments [] maxDuration = Inr ([], maxDuration)"
| "decodeSegments (seg # rest) maxDuration =
     (case decodeAudioData (audioBytes seg) 24000 1 of
        Inl e \<Rightarrow> Inl e
      | Inr audioBuffer \<Rightarrow>
          (let endTime = binary64 (startTime seg + duration audioBuffer);
               maxDuration' = (if endTime > maxDuration then endTime else maxDuration)
           in case decodeSegments rest maxDuration' of
                Inl e \<Rightarrow> Inl e
              | Inr (decoded, m) \<Rightarrow> Inr ((audioBuffer, startTime seg) # decoded, m)))"

text \<open>
  \<open>new OfflineAudioContext({numberOfChannels, length, sampleRate})\<close> of the Web Audio
  API: like \<open>createBuffer\<close>, the constructor throws \<open>NotSupportedError\<close> when an
  argument is zero, in particular for a length of zero frames.
\<close>

record offline_ctx =
  ctx_channels :: nat
  ctx_length :: nat
  ctx_sampleRate :: nat
  ctx_sources :: "(audio_buffer \<times> real) list"

definition OfflineAudioContext :: "nat \<Rightarrow> real \<Rightarrow> nat \<Rightarrow> js_error + offline_ctx" where
  "OfflineAudioContext numChannels len rate =
     (let n = nat \<lfloor>len\<rfloor> in
      if numChannels = 0 \<or> n = 0 \<or> rate = 0 then Inl NotSupportedError
      else Inr \<lparr>ctx_channels = numChannels, ctx_length = n, ctx_sampleRate = rate,
                ctx_sources = []\<rparr>)"

text \<open>
  The \<open>forEach\<close> that creates one buffer source per decoded segment, connects it to the
  destination and starts it at the segment's start time. \<open>source.start(when)\<close> throws
  \<open>RangeError\<close> for a negative \<open>when\<close>.
\<close>

fun scheduleSources :: "offline_ctx \<Rightarrow> (audio_buffer \<times> real) list \<Rightarrow> js_error + offline_ctx" where
  "scheduleSources ctx [] = Inr ctx"
| "scheduleSources ctx ((buffer, when) # rest) =
     (if when < 0 then Inl RangeError
      else scheduleSources (ctx\<lparr>ctx_sources := ctx_sources ctx @ [(buffer, when)]\<rparr>) rest)"

text \<open>
  \<open>offlineCtx.startRendering()\<close> is the platform's renderer. Its result has the length
  the context was created with. Each source is added, not overwritten, into a zeroed
  buffer; it starts at the first frame at or after its start time, and what falls past
  the end of the buffer is dropped. The sums are taken exactly here (the platform rounds
  them to \<open>Float32\<close>); no theorem below depends on the mixed contents.
\<close>

definition mixSource :: "nat \<Rightarrow> (audio_buffer \<times> real) \<Rightarrow> real list \<Rightarrow> real list" where
  "mixSource rate src out =
     (let samples = (case channelData (fst src) of [] \<Rightarrow> [] | c # _ \<Rightarrow> c);
          offset = nat \<lceil>snd src * real rate\<rceil>
      in map (\<lambda>k. out ! k + (if offset \<le> k \<and> k < offset + length samples
                                then samples ! (k - offset) else 0))
             [0..<length out])"

definition startRendering :: "offline_ctx \<Rightarrow> audio_buffer" where
  "startRendering ctx =
     \<lparr>numberOfChannels = ctx_channels ctx, length_frames = ctx_length ctx,
      sampleRate = ctx_sampleRate ctx,
      channelData = replicate (ctx_channels ctx)
        (fold (mixSource (ctx_sampleRate ctx)) (ctx_sources ctx)
              (replicate (ctx_length ctx) 0))\<rparr>"

text \<open>
  \<open>stitchAudio\<close> in two steps: \<open>renderTrack\<close> is the function up to
  \<open>finalBuffer\<close> (the composite track), \<open>stitchAudio\<close> converts it to the WAV bytes.
\<close>

definition renderTrack :: "segment list \<Rightarrow> js_error + audio_buffer" where
  "renderTrack segments =
     (case decodeSegments segments 0 of
        Inl e \<Rightarrow> Inl e
      | Inr (decodedSegments, maxDuration) \<Rightarrow>
          (case OfflineAudioContext 1 (real_of_int \<lceil>binary64 (maxDuration * 24000)\<rceil>) 24000 of
             Inl e \<Rightarrow> Inl e
           | Inr offlineCtx \<Rightarrow>
               (case scheduleSources offlineCtx decodedSegments of
                  Inl e \<Rightarrow> Inl e
                | Inr ctx \<Rightarrow> Inr (startRendering ctx))))"

definition stitchAudio :: "segment list \<Rightarrow> js_error + byte list" where
  "stitchAudio segments =
     (case renderTrack segments of
        Inl e \<Rightarrow> Inl e
      | Inr finalBuffer \<Rightarrow> Inr (bufferToWav finalBuffer))"

definition succeeds :: "'e + 'a \<Rightarrow> bool" where
  "succeeds r = (case r of Inl _ \<Rightarrow> False | Inr _ \<Rightarrow> True)"

text \<open>
  The end of a segment on the timeline as the code computes it, from its bytes (two
  bytes per frame): the duration is a rounded quotient and the end a rounded sum.
  \<open>exactEnd\<close> is the same time without the two roundings.
\<close>

definition segmentEnd :: "segment \<Rightarrow> real" where
  "segmentEnd seg =
     binary64 (startTime seg + binary64 (real (length (audioBytes seg) div 2) / 24000))"



text \<open>
  A segment that decodes and can be scheduled: a whole, positive number of 16-bit
  samples and a start time that is not negative.
\<close>

definition playable :: "segment \<Rightarrow> bool" where
  "playable seg = (even (length (audioBytes seg)) \<and> audioBytes seg \<noteq> [] \<and> 0 \<le> startTime seg)"

text \<open>A segment that decodes: the first two of the three conditions.\<close>

definition decodable :: "segment \<Rightarrow> bool" where
  "decodable seg = (even (length (audioBytes seg)) \<and> audioBytes seg \<noteq> [])"

section \<open>Dub generation and preview (App)\<close>

text \<open>
  A JavaScript string is a sequence of UTF-16 code units. \<open>str\<close> turns an ASCII
  literal of this file into such a string.
\<close>

type_synonym js_string = "16 word list"


datatype gender_label = Male | Female | Unknown

record TimedChunk =
  start :: real
  end_time :: real
  chunk_text :: js_string
  speaker :: js_string
  gender :: "gender_label option"






















section \<open>DubbedVideoPlayer: the sync controller\<close>

text \<open>
  The two media elements are transports with a position and a paused flag; assigning
  \<open>currentTime\<close> sets the position (the element's own clamping of a seek to its
  seekable range is not modelled). The drift test of \<open>syncLoop\<close> compares the double
  \<open>Math.abs(videoTime - audioTime)\<close> with 0.25.

  The state holds the three refs of the component and, of the host, the pending
  animation-frame callbacks of this component (each is \<open>syncLoop\<close>, named by its
  handle), the document's handle counter, and whether the listeners of the effect are
  attached.
\<close>

record media_element =
  currentTime :: real
  paused :: bool

record player_state =
  videoRef :: "media_element option"
  audioRef :: "media_element option"
  animationFrameId :: "nat option"
  callbacks :: "nat list"
  handleCounter :: nat
  listening :: bool

text \<open>
  \<open>requestAnimationFrame\<close> increments the counter, registers the callback under the
  new handle and returns it; \<open>cancelAnimationFrame\<close> removes the handle.
\<close>

definition requestAnimationFrame :: "player_state \<Rightarrow> nat \<times> player_state" where
  "requestAnimationFrame st =
     (let h = handleCounter st + 1
      in (h, st\<lparr>handleCounter := h, callbacks := callbacks st @ [h]\<rparr>))"

definition cancelAnimationFrame :: "nat \<Rightarrow> player_state \<Rightarrow> player_state" where
  "cancelAnimationFrame h st = st\<lparr>callbacks := removeAll h (callbacks st)\<rparr>"

text \<open>
  \<open>if (animationFrameId.current) cancelAnimationFrame(animationFrameId.current)\<close>:
  \<open>null\<close> and 0 are falsy.
\<close>

definition cancelPending :: "player_state \<Rightarrow> player_state" where
  "cancelPending st =
     (case animationFrameId st of
        None \<Rightarrow> st
      | Some h \<Rightarrow> if h \<noteq> 0 then cancelAnimationFrame h st else st)"

definition syncLoop :: "player_state \<Rightarrow> player_state" where
  "syncLoop st =
     (case (videoRef st, audioRef st) of
        (Some video, Some audio) \<Rightarrow>
          if \<not> paused video then
            (let videoTime = currentTime video;
                 audioTime = currentTime audio;
                 audio' = (if \<bar>binary64 (videoTime - audioTime)\<bar> > 0.25
                           then audio\<lparr>currentTime := videoTime\<rparr> else audio);
                 (h, st') = requestAnimationFrame (st\<lparr>audioRef := Some audio'\<rparr>)
             in st'\<lparr>animationFrameId := Some h\<rparr>)
          else st
      | _ \<Rightarrow> st)"

definition handlePlay :: "player_state \<Rightarrow> player_state" where
  "handlePlay st =
     (case (videoRef st, audioRef st) of
        (Some video, Some audio) \<Rightarrow>
          (let audio' = audio\<lparr>currentTime := currentTime video, paused := False\<rparr>;
               (h, st') = requestAnimationFrame (cancelPending (st\<lparr>audioRef := Some audio'\<rparr>))
           in st'\<lparr>animationFrameId := Some h\<rparr>)
      | _ \<Rightarrow> st)"

definition handlePauseOrEnd :: "player_state \<Rightarrow> player_state" where
  "handlePauseOrEnd st =
     (case audioRef st of
        Some audio \<Rightarrow> cancelPending (st\<lparr>audioRef := Some (audio\<lparr>paused := True\<rparr>)\<rparr>)
      | None \<Rightarrow> st)"

definition handleSeeked :: "player_state \<Rightarrow> player_state" where
  "handleSeeked st =
     (case (videoRef st, audioRef st) of
        (Some video, Some audio) \<Rightarrow>
          st\<lparr>audioRef := Some (audio\<lparr>currentTime := currentTime video\<rparr>)\<rparr>
      | _ \<Rightarrow> st)"

text \<open>
  The cleanup of the effect removes the four listeners and cancels the pending handle;
  on unmount React also clears the refs of the two elements.
\<close>

definition cleanup :: "player_state \<Rightarrow> player_state" where
  "cleanup st = cancelPending (st\<lparr>listening := False\<rparr>)"

text \<open>
  When the host runs the animation-frame callbacks it takes the handles pending at that
  moment; each one still registered is removed and then called. A callback registered
  during the run waits for the next frame.
\<close>

definition runFrame :: "player_state \<Rightarrow> player_state" where
  "runFrame st =
     fold (\<lambda>h s. if h \<in> set (callbacks s)
                  then syncLoop (s\<lparr>callbacks := removeAll h (callbacks s)\<rparr>) else s)
          (callbacks st) st"

text \<open>
  What can happen to a mounted player: the four video events (handled while the
  listeners are attached), an animation frame, the unmount, another script taking an
  animation-frame handle, and the environment moving the two transports (playback
  advancing, the user pausing or seeking) while the elements exist.
\<close>

datatype event = Play | Pause | Ended | Seeked | Frame | Unmount | OtherRequest
  | Transport media_element media_element

definition fire :: "event \<Rightarrow> player_state \<Rightarrow> player_state" where
  "fire e st =
     (case e of
        Play \<Rightarrow> if listening st then handlePlay st else st
      | Pause \<Rightarrow> if listening st then handlePauseOrEnd st else st
      | Ended \<Rightarrow> if listening st then handlePauseOrEnd st else st
      | Seeked \<Rightarrow> if listening st then handleSeeked st else st
      | Frame \<Rightarrow> runFrame st
      | Unmount \<Rightarrow> (cleanup st)\<lparr>videoRef := None, audioRef := None\<rparr>
      | OtherRequest \<Rightarrow> st\<lparr>handleCounter := handleCounter st + 1\<rparr>
      | Transport video audio \<Rightarrow>
          if listening st then st\<lparr>videoRef := Some video, audioRef := Some audio\<rparr> else st)"

definition mounted :: "media_element \<Rightarrow> media_element \<Rightarrow> nat \<Rightarrow> player_state" where
  "mounted video audio n =
     \<lparr>videoRef = Some video, audioRef = Some audio, animationFrameId = None,
      callbacks = [], handleCounter = n, listening = True\<rparr>"

inductive reachable :: "player_state \<Rightarrow> bool" where
  start: "reachable (mounted video audio n)"
| step: "reachable st \<Longrightarrow> reachable (fire e st)"

section \<open>Auxiliary notions for the properties\<close>




text \<open>
  The invariant of the sync controller: the pending callbacks are none, or exactly the
  one whose handle \<open>animationFrameId\<close> holds; the elements exist while the listeners
  are attached, and nothing is pending once they are removed.
\<close>

definition tokens_ok :: "player_state \<Rightarrow> bool" where
  "tokens_ok st = (callbacks st = [] \<or>
      (\<exists>h. h \<noteq> 0 \<and> callbacks st = [h] \<and> animationFrameId st = Some h))"

definition player_inv :: "player_state \<Rightarrow> bool" where
  "player_inv st = (tokens_ok st
      \<and> (if listening st then videoRef st \<noteq> None \<and> audioRef st \<noteq> None else callbacks st = []))"

text \<open>Concrete states used to exercise the theorems.\<close>

definition playing :: player_state where
  "playing = fire Play (mounted \<lparr>currentTime = 0, paused = False\<rparr> \<lparr>currentTime = 0, paused = True\<rparr> 0)"








section \<open>Properties of the double rounding\<close>

lemma powi_nat: "0 \<le> k \<Longrightarrow> (2::real) powi k = 2 ^ nat k"
  by (simp add: power_int_def)

lemma powi_neg: "0 \<le> k \<Longrightarrow> (2::real) powi (- k) = 1 / 2 ^ nat k"
  by (cases "k = 0") (simp_all add: power_int_def power_one_over field_simps)

lemma exponent_bounds:
  assumes "x \<noteq> 0"
  shows "2 powi (exponent x) \<le> \<bar>x\<bar> \<and> \<bar>x\<bar> < 2 powi (exponent x + 1)"
proof (cases "1 \<le> \<bar>x\<bar>")
  case True
  define n where "n = \<lfloor>\<bar>x\<bar>\<rfloor>"
  have n1: "1 \<le> n" using True by (simp add: n_def le_floor_iff)
  then have n0: "0 < n" by simp
  have b1: "1 \<le> bitlen n" using n0 by (auto simp: bitlen_alt_def)
  have e: "exponent x = bitlen n - 1" using True by (simp add: exponent_def n_def)
  from bitlen_bounds[OF n0] have lo: "2 ^ nat (bitlen n - 1) \<le> n" and hi: "n + 1 \<le> 2 ^ nat (bitlen n)"
    by auto
  have lor: "(2::real) ^ nat (bitlen n - 1) \<le> real_of_int n"
    using lo by (metis of_int_le_iff of_int_numeral of_int_power)
  have hir: "real_of_int (n + 1) \<le> (2::real) ^ nat (bitlen n)"
    using hi by (metis of_int_le_iff of_int_numeral of_int_power)
  have nx: "real_of_int n \<le> \<bar>x\<bar>" "\<bar>x\<bar> < real_of_int (n + 1)" unfolding n_def by linarith+
  have l: "(2::real) ^ nat (bitlen n - 1) \<le> \<bar>x\<bar>" using lor nx by linarith
  have h: "\<bar>x\<bar> < (2::real) ^ nat (bitlen n)" using hir nx by linarith
  have p1: "(2::real) powi (bitlen n - 1) = 2 ^ nat (bitlen n - 1)" using b1 by (intro powi_nat) simp
  have p2: "(2::real) powi (bitlen n - 1 + 1) = 2 ^ nat (bitlen n)" using b1 by (simp add: powi_nat)
  show ?thesis unfolding e p1 p2 using l h by simp
next
  case False
  define y where "y = 1 / \<bar>x\<bar>"
  define m where "m = \<lceil>y\<rceil> - 1"
  have xp: "0 < \<bar>x\<bar>" "\<bar>x\<bar> < 1" using assms False by auto
  then have y1: "1 < y" by (simp add: y_def)
  then have m1: "1 \<le> m" unfolding m_def by linarith
  then have m0: "0 < m" by simp
  have k1: "1 \<le> bitlen m" using m0 by (auto simp: bitlen_alt_def)
  have e: "exponent x = - bitlen m" using False by (simp add: exponent_def m_def y_def)
  from bitlen_bounds[OF m0] have lo: "2 ^ nat (bitlen m - 1) \<le> m" and hi: "m + 1 \<le> 2 ^ nat (bitlen m)"
    by auto
  have lor: "(2::real) ^ nat (bitlen m - 1) \<le> real_of_int m"
    using lo by (metis of_int_le_iff of_int_numeral of_int_power)
  have hir: "real_of_int (m + 1) \<le> (2::real) ^ nat (bitlen m)"
    using hi by (metis of_int_le_iff of_int_numeral of_int_power)
  have my: "real_of_int m < y" "y \<le> real_of_int (m + 1)" unfolding m_def by linarith+
  have yh: "y \<le> 2 ^ nat (bitlen m)" using hir my by linarith
  have yl: "(2::real) ^ nat (bitlen m - 1) < y" using lor my by linarith
  have xy: "\<bar>x\<bar> = 1 / y" using xp by (simp add: y_def)
  have p1: "(2::real) powi (- bitlen m) = 1 / 2 ^ nat (bitlen m)" using k1 by (intro powi_neg) simp
  have "- bitlen m + 1 = - (bitlen m - 1)" by simp
  then have p2: "(2::real) powi (- bitlen m + 1) = 1 / 2 ^ nat (bitlen m - 1)"
    using k1 powi_neg[of "bitlen m - 1"] by simp
  have l: "1 / 2 ^ nat (bitlen m) \<le> 1 / y" using yh y1 by (simp add: frac_le)
  have h: "1 / y < 1 / 2 ^ nat (bitlen m - 1)" using yl by (simp add: frac_less2)
  show ?thesis unfolding e p1 p2 xy using l h by simp
qed

lemma exponent_ge:
  assumes "2 powi k \<le> \<bar>x\<bar>"
  shows "k \<le> exponent x"
proof (rule ccontr)
  assume "\<not> k \<le> exponent x"
  then have "exponent x + 1 \<le> k" by simp
  then have "(2::real) powi (exponent x + 1) \<le> 2 powi k" by (intro power_int_increasing) simp_all
  moreover have "(0::real) < 2 powi k" by simp
  then have "0 < \<bar>x\<bar>" using assms by linarith
  then have "x \<noteq> 0" by auto
  ultimately show False using exponent_bounds[of x] assms by linarith
qed

lemma exponent_le:
  assumes "x \<noteq> 0" "\<bar>x\<bar> < 2 powi (k + 1)"
  shows "exponent x \<le> k"
proof (rule ccontr)
  assume "\<not> exponent x \<le> k"
  then have "k + 1 \<le> exponent x" by simp
  then have "(2::real) powi (k + 1) \<le> 2 powi (exponent x)" by (intro power_int_increasing) simp_all
  then show False using exponent_bounds[OF assms(1)] assms(2) by linarith
qed

lemma exponent_eqI:
  assumes "2 powi k \<le> \<bar>x\<bar>" "\<bar>x\<bar> < 2 powi (k + 1)"
  shows "exponent x = k"
proof -
  have "(0::real) < 2 powi k" by simp
  then have "0 < \<bar>x\<bar>" using assms(1) by linarith
  then have "x \<noteq> 0" by auto
  then show ?thesis using exponent_ge[OF assms(1)] exponent_le[OF _ assms(2)] by simp
qed

lemma round_ge: "of_int n \<le> y \<Longrightarrow> n \<le> roundTiesToEven y"
proof -
  assume "of_int n \<le> y"
  then have "n \<le> \<lfloor>y\<rfloor>" by (simp add: le_floor_iff)
  then show ?thesis by (auto simp: roundTiesToEven_def Let_def)
qed

lemma round_le: "y \<le> of_int n \<Longrightarrow> roundTiesToEven y \<le> n"
proof -
  assume a: "y \<le> of_int n"
  show ?thesis
  proof (cases "y = of_int n")
    case True
    then show ?thesis by (simp add: roundTiesToEven_def)
  next
    case False
    then have "y < of_int n" using a by simp
    then have "\<lfloor>y\<rfloor> < n" by (simp add: floor_less_iff)
    then show ?thesis by (auto simp: roundTiesToEven_def Let_def)
  qed
qed

lemma round_int: "roundTiesToEven (of_int n) = n"
  by (simp add: roundTiesToEven_def)

lemma round_above_half:
  assumes "of_int n + 1 / 2 < y"
  shows "n + 1 \<le> roundTiesToEven y"
proof (cases "of_int (n + 1) \<le> y")
  case True
  then show ?thesis by (rule round_ge)
next
  case False
  then have "\<lfloor>y\<rfloor> = n" using assms by (intro floor_unique) auto
  then show ?thesis using assms by (simp add: roundTiesToEven_def Let_def)
qed

lemma round_uminus: "roundTiesToEven (- y) = - roundTiesToEven y"
proof (cases "y = of_int \<lfloor>y\<rfloor>")
  case True
  then obtain n where "y = of_int n" ..
  then show ?thesis using round_int[of n] round_int[of "- n"] by simp
next
  case False
  define n where "n = \<lfloor>y\<rfloor>"
  have yn: "of_int n < y" "y < of_int n + 1" using False unfolding n_def by linarith+
  then have f: "\<lfloor>- y\<rfloor> = - n - 1" by (intro floor_unique) auto
  have r: "- y - of_int (- n - 1) = 1 - (y - of_int n)" by simp
  show ?thesis
    unfolding roundTiesToEven_def Let_def f r n_def[symmetric]
    by auto
qed

lemma binary64_zero: "binary64 0 = 0"
  by (simp add: binary64_def)

lemma exponent_uminus: "exponent (- x) = exponent x"
  by (simp add: exponent_def)

lemma binary64_uminus: "binary64 (- x) = - binary64 x"
  by (simp add: binary64_def exponent_uminus round_uminus Let_def)

lemma binary64_lower:
  assumes "2 powi k \<le> x" "- 1022 \<le> k"
  shows "2 powi k \<le> binary64 x"
proof -
  have kp: "(0::real) < 2 powi k" by simp
  then have x0: "0 < x" using assms(1) by linarith
  define e where "e = exponent x"
  have ke: "k \<le> e" unfolding e_def using assms(1) x0 by (intro exponent_ge) simp
  then have s: "max (e - 52) (- 1074) = e - 52" using assms(2) by simp
  have "2 powi e \<le> x" using exponent_bounds[of x] x0 by (simp add: e_def)
  then have "2 powi e / 2 powi (e - 52) \<le> x / 2 powi (e - 52)"
    by (simp add: divide_right_mono)
  moreover have "(2::real) powi e / 2 powi (e - 52) = 2 powi 52"
    by (simp add: power_int_diff[symmetric])
  ultimately have "real_of_int (2 ^ 52) \<le> x / 2 powi (e - 52)" by simp
  then have "2 ^ 52 \<le> roundTiesToEven (x / 2 powi (e - 52))" by (rule round_ge)
  then have "real_of_int (2 ^ 52) \<le> of_int (roundTiesToEven (x / 2 powi (e - 52)))"
    by (simp only: of_int_le_iff)
  then have "real_of_int (2 ^ 52) * 2 powi (e - 52) \<le> of_int (roundTiesToEven (x / 2 powi (e - 52))) * 2 powi (e - 52)"
    by (intro mult_right_mono) simp_all
  moreover have "real_of_int (2 ^ 52) * 2 powi (e - 52) = 2 powi e"
  proof -
    have "(2::real) powi (52 + (e - 52)) = 2 powi 52 * 2 powi (e - 52)" by (intro power_int_add) simp
    then show ?thesis by simp
  qed
  moreover have "binary64 x = of_int (roundTiesToEven (x / 2 powi (e - 52))) * 2 powi (e - 52)"
    using x0 s by (simp add: binary64_def e_def[symmetric] Let_def)
  moreover have "(2::real) powi k \<le> 2 powi e" using ke by (intro power_int_increasing) simp_all
  ultimately show ?thesis by linarith
qed

lemma binary64_upper:
  assumes "0 < x" "x \<le> 2 powi k" "- 1074 \<le> k"
  shows "binary64 x \<le> 2 powi k"
proof -
  define e where "e = exponent x"
  define s where "s = max (e - 52) (- 1074)"
  have "2 powi e \<le> x" using exponent_bounds[of x] assms(1) by (simp add: e_def)
  then have "(2::real) powi e \<le> 2 powi k" using assms(2) by linarith
  then have ek: "e \<le> k"
  proof -
    have "\<not> k < e"
    proof
      assume "k < e"
      then have "(2::real) powi k < 2 powi e" by (intro power_int_strict_increasing) simp_all
      then show False using \<open>(2::real) powi e \<le> 2 powi k\<close> by linarith
    qed
    then show ?thesis by simp
  qed
  then have sk: "s \<le> k" using assms(3) by (simp add: s_def)
  have q: "(2::real) powi k / 2 powi s = real_of_int (2 ^ nat (k - s))"
  proof -
    have "(2::real) powi k / 2 powi s = 2 powi (k - s)" by (simp add: power_int_diff)
    also have "\<dots> = 2 ^ nat (k - s)" using sk by (intro powi_nat) simp
    finally show ?thesis by simp
  qed
  have "x / 2 powi s \<le> 2 powi k / 2 powi s" using assms(2) by (simp add: divide_right_mono)
  then have "x / 2 powi s \<le> real_of_int (2 ^ nat (k - s))" unfolding q .
  then have "roundTiesToEven (x / 2 powi s) \<le> 2 ^ nat (k - s)" by (rule round_le)
  then have "real_of_int (roundTiesToEven (x / 2 powi s)) \<le> real_of_int (2 ^ nat (k - s))"
    by (simp only: of_int_le_iff)
  then have "of_int (roundTiesToEven (x / 2 powi s)) * 2 powi s \<le> real_of_int (2 ^ nat (k - s)) * 2 powi s"
    by (intro mult_right_mono) simp_all
  moreover have "real_of_int (2 ^ nat (k - s)) * 2 powi s = 2 powi k"
    unfolding q[symmetric] by simp
  moreover have "binary64 x = of_int (roundTiesToEven (x / 2 powi s)) * 2 powi s"
    using assms(1) by (simp add: binary64_def e_def[symmetric] s_def Let_def)
  ultimately show ?thesis by linarith
qed



lemma binary64_nonneg: "0 \<le> x \<Longrightarrow> 0 \<le> binary64 x"
proof -
  assume "0 \<le> x"
  then have "0 \<le> roundTiesToEven (x / 2 powi max (exponent x - 52) (- 1074))"
    by (intro round_ge) simp
  then show ?thesis by (simp add: binary64_def Let_def)
qed

lemma binary64_eqI:
  assumes "2 powi k \<le> \<bar>x\<bar>" "\<bar>x\<bar> < 2 powi (k + 1)" "- 1022 \<le> k"
    and "roundTiesToEven (x / 2 powi (k - 52)) = m" "y = of_int m * 2 powi (k - 52)"
  shows "binary64 x = y"
proof -
  have e: "exponent x = k" using assms(1,2) by (rule exponent_eqI)
  have "(0::real) < 2 powi k" by simp
  then have "0 < \<bar>x\<bar>" using assms(1) by linarith
  then have "x \<noteq> 0" by auto
  moreover have "max (k - 52) (- 1074) = k - 52" using assms(3) by simp
  ultimately show ?thesis by (simp add: binary64_def e Let_def assms(4,5))
qed

section \<open>Properties of the sample conversion\<close>

lemma trunc_bounds: "\<bar>x\<bar> \<le> 32768 \<Longrightarrow> \<bar>trunc x\<bar> \<le> 32768"
  unfolding trunc_def by (auto simp: abs_if) linarith+

lemma toInt32_small: 
  assumes "\<bar>x\<bar> \<le> 32768" shows "toInt32 x = trunc x"
proof -
  from trunc_bounds[OF assms] have "- (2 ^ 31) \<le> trunc x" "trunc x < 2 ^ 31" by auto
  then have "signed_take_bit 31 (trunc x) = trunc x"
    by (rule signed_take_bit_int_eq_self)
  then show ?thesis unfolding toInt32_def by (simp add: sint_sbintrunc')
qed

lemma clamp_range: "-1 \<le> clamp x \<and> clamp x \<le> 1"
  by (simp add: clamp_def)

lemma pcmSample_eq:
  "pcmSample x = (if clamp x < - (1/2) then trunc (clamp x * 32768) else trunc (clamp x * 32767))"
proof -
  have r: "-1 \<le> clamp x" "clamp x \<le> 1" using clamp_range by auto
  have a: "\<bar>clamp x * 32768\<bar> \<le> 32768" using r by (simp add: abs_le_iff)
  have b: "\<bar>clamp x * 32767\<bar> \<le> 32768" using r by (simp add: abs_le_iff)
  show ?thesis unfolding pcmSample_def Let_def
    using toInt32_small[OF a] toInt32_small[OF b] by auto
qed

lemma pcmSample_range: "- 32768 \<le> pcmSample x \<and> pcmSample x \<le> 32767"
proof -
  have r: "-1 \<le> clamp x" "clamp x \<le> 1" using clamp_range by auto
  show ?thesis
  proof (cases "clamp x < - (1/2)")
    case True
    then have "pcmSample x = \<lceil>clamp x * 32768\<rceil>" by (simp add: pcmSample_eq trunc_def)
    moreover have "- 32768 \<le> \<lceil>clamp x * 32768\<rceil>" using r by (simp add: le_ceiling_iff)
    moreover have "\<lceil>clamp x * 32768\<rceil> \<le> 0" using True by (simp add: ceiling_le_iff)
    ultimately show ?thesis by simp
  next
    case False
    then have e: "pcmSample x = trunc (clamp x * 32767)" by (simp add: pcmSample_eq)
    have "\<lfloor>clamp x * 32767\<rfloor> \<le> 32767" using r by (simp add: floor_le_iff)
    moreover have "- 32767 \<le> \<lceil>clamp x * 32767\<rceil>" using r by (simp add: le_ceiling_iff)
    moreover have "clamp x < 0 \<Longrightarrow> \<lceil>clamp x * 32767\<rceil> \<le> 0" by (simp add: ceiling_le_iff)
    moreover have "\<not> clamp x < 0 \<Longrightarrow> 0 \<le> \<lfloor>clamp x * 32767\<rfloor>" by simp
    ultimately show ?thesis unfolding e trunc_def by (auto simp: mult_less_0_iff)
  qed
qed

lemma sint16_pcmSample: "sint (word_of_int (pcmSample x) :: 16 word) = pcmSample x"
proof -
  have "- (2 ^ 15) \<le> pcmSample x" "pcmSample x < 2 ^ 15" using pcmSample_range[of x] by auto
  then have "signed_take_bit 15 (pcmSample x) = pcmSample x"
    by (rule signed_take_bit_int_eq_self)
  then show ?thesis by (simp add: sint_sbintrunc')
qed

text \<open>
  The encoder reaches both ends of the 16-bit range, and a sample of \<open>-0.5\<close> is still
  scaled by 32767.
\<close>

lemma pcmSample_ends:
  "pcmSample (- 1) = - 32768" "pcmSample 1 = 32767" "pcmSample (- (1 / 2)) = - 16383"
  by (simp_all add: pcmSample_eq clamp_def trunc_def)

text \<open>Outside \<open>[-0.5, 0)\<close> the sample is scaled by the sign of the clamped value.\<close>

lemma pcmSample_by_sign:
  assumes "clamp x < - (1 / 2) \<or> 0 \<le> clamp x"
  shows "pcmSample x = trunc (if clamp x < 0 then clamp x * 32768 else clamp x * 32767)"
  using assms by (auto simp: pcmSample_eq)

text \<open>
  Claim C1. The specification says that a clamped sample that is negative is scaled by
  32768 and truncated towards zero. The code compares \<open>0.5 + sample\<close> with zero, so a
  sample in \<open>[-0.5, 0)\<close> is scaled by 32767: the sample \<open>-0.25\<close> is written as
  \<open>-8191\<close>, where scaling by 32768 gives \<open>-8192\<close>.
\<close>

theorem pcmSample_minus_quarter:
  "pcmSample (- (1 / 4)) = - 8191 \<and> trunc (clamp (- (1 / 4)) * 32768) = - 8192"
  by (simp add: pcmSample_eq clamp_def trunc_def)

text \<open>
  Claim C5, as stated: encoding a sample and decoding the 16-bit payload sample (the
  decoder divides by 32768) gives the clamped sample back within \<open>1/32768\<close>. The sample
  \<open>65537 / 2^31\<close> (a \<open>Float32\<close> value just above \<open>1/32768\<close>) is encoded as 0, which
  every inverse scaling decodes as 0, so the error is the sample itself.
\<close>

theorem roundtrip_exceeds_step:
  "pcmSample (65537 / 2147483648) = 0 \<and>
   \<not> \<bar>clamp (65537 / 2147483648)
        - decodeSample (word_of_int (pcmSample (65537 / 2147483648)))\<bar> \<le> 1 / 32768"
proof -
  have z: "pcmSample (65537 / 2147483648) = 0"
    by (simp add: pcmSample_eq clamp_def trunc_def)
  show ?thesis unfolding z by (simp add: decodeSample_def clamp_def)
qed

text \<open>
  Claim C5, amended: for every sample the round trip through the encoder and the decoder
  of the code gives the clamped sample back within two quantisation steps, strictly less
  than \<open>2/32768 = 1/16384\<close>.
\<close>

theorem roundtrip_within_two_steps:
  "\<bar>clamp x - decodeSample (word_of_int (pcmSample x))\<bar> < 1 / 16384"
proof -
  define s where "s = clamp x"
  define q where "q = real_of_int (pcmSample x)"
  have r: "-1 \<le> s" "s \<le> 1" using clamp_range[of x] by (auto simp: s_def)
  have d: "decodeSample (word_of_int (pcmSample x)) = q / 32768"
    by (simp add: decodeSample_def sint16_pcmSample q_def)
  have "s - 1 / 16384 < q / 32768 \<and> q / 32768 < s + 1 / 16384"
  proof (cases "s < - (1/2)")
    case True
    then have "q = real_of_int \<lceil>s * 32768\<rceil>"
      by (simp add: pcmSample_eq trunc_def s_def q_def)
    then have "s * 32768 \<le> q" "q < s * 32768 + 1"
      by linarith+
    then show ?thesis by (simp add: field_simps)
  next
    case False
    note nf = False
    show ?thesis
    proof (cases "s < 0")
      case True
      then have "q = real_of_int \<lceil>s * 32767\<rceil>" using nf
        by (simp add: pcmSample_eq trunc_def s_def q_def mult_less_0_iff)
      then have "s * 32767 \<le> q" "q < s * 32767 + 1"
        by linarith+
      then show ?thesis using True r by (simp add: field_simps)
    next
      case False
      then have "q = real_of_int \<lfloor>s * 32767\<rfloor>" using nf
        by (simp add: pcmSample_eq trunc_def s_def q_def mult_less_0_iff)
      then have "q \<le> s * 32767" "s * 32767 - 1 < q"
        by linarith+
      then show ?thesis using False r by (simp add: field_simps)
    qed
  qed
  then have "\<bar>s - q / 32768\<bar> < 1 / 16384" by linarith
  then show ?thesis unfolding d s_def[symmetric] .
qed

section \<open>Properties of decodeAudioData\<close>

lemma length_int16_view: "length (int16_view data) = length data div 2"
  by (induction data rule: int16_view.induct) simp_all

lemma fold_store:
  "fold (\<lambda>i cd. if i < length cd then cd[i := f i] else cd) [0..<k] xs
     = map (\<lambda>i. if i < k then f i else xs ! i) [0..<length xs]"
proof (induction k)
  case 0
  show ?case by (simp add: map_nth)
next
  case (Suc k)
  let ?g = "\<lambda>i cd. if i < length cd then cd[i := f i] else cd"
  let ?m = "map (\<lambda>i. if i < k then f i else xs ! i) [0..<length xs]"
  have "fold ?g [0..<Suc k] xs = ?g k ?m"
    using Suc by simp
  also have "\<dots> = map (\<lambda>i. if i < Suc k then f i else xs ! i) [0..<length xs]"
  proof (cases "k < length xs")
    case True
    then show ?thesis
      by (intro nth_equalityI) (auto simp: nth_list_update less_Suc_eq)
  next
    case False
    then show ?thesis by (auto simp: less_Suc_eq)
  qed
  finally show ?case .
qed

lemma fillChannel_eq:
  assumes "length chData \<le> nat \<lceil>frameCount\<rceil>"
  shows "fillChannel dataInt16 numChannels channel frameCount chData
           = map (\<lambda>i. decodeSample (dataInt16 ! (i * numChannels + channel))) [0..<length chData]"
  unfolding fillChannel_def fold_store using assms by auto

lemma floor_quotient: "nat \<lfloor>real m / real n\<rfloor> = m div n"
  by (simp add: floor_divide_of_nat_eq)

lemma floor_le_ceiling_nat: "nat \<lfloor>x\<rfloor> \<le> nat \<lceil>x::real\<rceil>"
  by linarith

lemma decodeAudioData_odd: "odd (length data) \<Longrightarrow> decodeAudioData data rate numChannels = Inl RangeError"
  by (simp add: decodeAudioData_def Int16Array_def)

lemma decodeAudioData_no_frame:
  "even (length data) \<Longrightarrow> length data div 2 < numChannels
     \<Longrightarrow> decodeAudioData data rate numChannels = Inl NotSupportedError"
  by (simp add: decodeAudioData_def Int16Array_def createBuffer_def floor_quotient length_int16_view)

text \<open>The result of the decoder on a buffer that holds whole samples and a whole frame.\<close>

lemma decodeAudioData_whole_frames:
  assumes "even (length data)" "0 < rate" "0 < numChannels" "numChannels \<le> length data div 2"
  shows "decodeAudioData data rate numChannels =
           Inr \<lparr>numberOfChannels = numChannels,
                length_frames = (length data div 2) div numChannels,
                sampleRate = rate,
                channelData =
                  map (\<lambda>channel. map (\<lambda>i. decodeSample (int16_view data ! (i * numChannels + channel)))
                                     [0..<(length data div 2) div numChannels])
                      [0..<numChannels]\<rparr>"
proof -
  define L where "L = length data div 2"
  define fc where "fc = real (length (int16_view data)) / real numChannels"
  have n: "nat \<lfloor>fc\<rfloor> = L div numChannels"
    by (simp add: fc_def L_def floor_quotient length_int16_view)
  have pos: "0 < L div numChannels" using assms by (simp add: L_def div_greater_zero_iff)
  have cb: "createBuffer numChannels fc rate =
              Inr \<lparr>numberOfChannels = numChannels, length_frames = L div numChannels,
                   sampleRate = rate,
                   channelData = replicate numChannels (replicate (L div numChannels) 0)\<rparr>"
    using assms pos by (simp add: createBuffer_def n Let_def)
  have fill: "fillChannel (int16_view data) numChannels channel fc (replicate (L div numChannels) 0)
          = map (\<lambda>i. decodeSample (int16_view data ! (i * numChannels + channel))) [0..<L div numChannels]"
    for channel
    using fillChannel_eq[of "replicate (L div numChannels) 0" fc] floor_le_ceiling_nat[of fc] n
    by simp
  show ?thesis
    unfolding decodeAudioData_def Int16Array_def
    using assms(1) by (simp add: Let_def fc_def[symmetric] cb fill L_def[symmetric])
qed

text \<open>
  Claim C4, as stated: the decoder never fails, drops a trailing partial sample and
  turns an empty input into an empty segment. A buffer of three bytes makes the
  \<open>Int16Array\<close> constructor throw.
\<close>

theorem decodeAudioData_three_bytes: "decodeAudioData [1, 2, 3] 24000 1 = Inl RangeError"
  by (simp add: decodeAudioData_odd)

text \<open>An empty buffer has no frame, and \<open>createBuffer\<close> refuses a length of zero.\<close>

lemma decodeAudioData_empty: "decodeAudioData [] 24000 1 = Inl NotSupportedError"
  by (simp add: decodeAudioData_no_frame)

text \<open>
  Claim C4, amended: for a buffer with an even number of bytes that holds at least one
  whole frame, the decoder succeeds and yields exactly
  \<open>floor(totalSampleCount / channelCount)\<close> frames, where the sample count is half the
  byte count; frame \<open>i\<close> of channel \<open>c\<close> is sample \<open>i * channelCount + c\<close> divided by
  32768, and the samples of a trailing partial frame are dropped.
\<close>

theorem decodeAudioData_frames:
  assumes "even (length data)" "0 < rate" "0 < numChannels" "numChannels \<le> length data div 2"
  shows "decodeAudioData data rate numChannels =
           Inr \<lparr>numberOfChannels = numChannels,
                length_frames = (length data div 2) div numChannels,
                sampleRate = rate,
                channelData =
                  map (\<lambda>channel. map (\<lambda>i. decodeSample (int16_view data ! (i * numChannels + channel)))
                                     [0..<(length data div 2) div numChannels])
                      [0..<numChannels]\<rparr>"
  using assms by (rule decodeAudioData_whole_frames)

theorem decodeAudioData_frames_witness:
  "even (length [1, 0, 255, 255, 0, 128 :: byte]) \<and> (0::nat) < 24000 \<and> (0::nat) < 2
   \<and> 2 \<le> length [1, 0, 255, 255, 0, 128 :: byte] div 2
   \<and> decodeAudioData [1, 0, 255, 255, 0, 128] 24000 2 =
       Inr \<lparr>numberOfChannels = 2, length_frames = 1, sampleRate = 24000,
            channelData = [[1 / 32768], [- (1 / 32768)]]\<rparr>"
proof -
  have u: "[0..<2] = [0, Suc 0]" "[0..<Suc 0] = [0]" by (simp_all add: upt_conv_Cons)
  show ?thesis
    using decodeAudioData_frames[of "[1, 0, 255, 255, 0, 128]" 24000 2]
    by (simp add: decodeSample_def u)
qed

section \<open>Properties of stitchAudio\<close>

lemma decode_mono:
  assumes "even (length bytes)" "bytes \<noteq> []"
  shows "\<exists>b. decodeAudioData bytes 24000 1 = Inr b \<and> length_frames b = length bytes div 2
             \<and> sampleRate b = 24000 \<and> numberOfChannels b = 1"
proof -
  have "length bytes \<noteq> 0" "length bytes \<noteq> 1" using assms by auto
  then have "1 \<le> length bytes div 2" by linarith
  then show ?thesis using decodeAudioData_whole_frames[of bytes 24000 1] assms by simp
qed

lemma decode_mono_only:
  assumes "decodeAudioData bytes 24000 1 = Inr b"
  shows "even (length bytes) \<and> bytes \<noteq> []"
proof (rule ccontr)
  assume "\<not> ?thesis"
  then consider "odd (length bytes)" | "bytes = []" by auto
  then show False
  proof cases
    case 1 then show False using assms by (simp add: decodeAudioData_odd)
  next
    case 2 then show False using assms by (simp add: decodeAudioData_no_frame)
  qed
qed

lemma segmentEnd_decoded:
  assumes "decodeAudioData (audioBytes seg) 24000 1 = Inr b"
  shows "binary64 (startTime seg + duration b) = segmentEnd seg"
proof -
  from decode_mono_only[OF assms] decode_mono[of "audioBytes seg"] assms
  show ?thesis by (auto simp: duration_def segmentEnd_def)
qed

lemma decodeSegments_ok:
  assumes "list_all decodable segs"
  shows "\<exists>ds. decodeSegments segs m = Inr (ds, Max (insert m (segmentEnd ` set segs)))
              \<and> map snd ds = map startTime segs"
  using assms
proof (induction segs arbitrary: m)
  case Nil
  then show ?case by simp
next
  case (Cons seg rest)
  from Cons.prems have ds: "decodable seg" and r: "list_all decodable rest" by simp_all
  from ds have d: "even (length (audioBytes seg))" "audioBytes seg \<noteq> []"
    by (simp_all add: decodable_def)
  from decode_mono[OF d] obtain b where b: "decodeAudioData (audioBytes seg) 24000 1 = Inr b" by blast
  have e: "binary64 (startTime seg + duration b) = segmentEnd seg" by (rule segmentEnd_decoded[OF b])
  define m' where "m' = (if segmentEnd seg > m then segmentEnd seg else m)"
  from Cons.IH[OF r, of m'] obtain ds where
    ds: "decodeSegments rest m' = Inr (ds, Max (insert m' (segmentEnd ` set rest)))"
      "map snd ds = map startTime rest" by blast
  have "Max (insert m' (segmentEnd ` set rest)) = Max (insert m (segmentEnd ` set (seg # rest)))"
  proof -
    have "m' = max m (segmentEnd seg)" by (simp add: m'_def max_def)
    then show ?thesis
      by (cases "set rest = {}") (simp_all add: max.assoc max.commute max.left_commute)
  qed
  then show ?case using b e ds by (simp add: Let_def m'_def)
qed

lemma decodeSegments_only:
  "decodeSegments segs m = Inr r \<Longrightarrow> list_all decodable segs"
proof (induction segs arbitrary: m r)
  case Nil
  then show ?case by simp
next
  case (Cons seg rest)
  from Cons.prems obtain b m' r' where
    b: "decodeAudioData (audioBytes seg) 24000 1 = Inr b"
    and rest: "decodeSegments rest m' = Inr r'"
    by (auto simp: Let_def split: sum.splits prod.splits)
  have "decodable seg" using decode_mono_only[OF b] by (simp add: decodable_def)
  moreover have "list_all decodable rest" using rest by (rule Cons.IH)
  ultimately show ?case by simp
qed


lemma scheduleSources_only:
  "scheduleSources ctx ds = Inr ctx' \<Longrightarrow> list_all (\<lambda>w. 0 \<le> w) (map snd ds)"
  by (induction ctx ds arbitrary: ctx' rule: scheduleSources.induct) (auto split: if_splits)



text \<open>
  The two conditions are also necessary: a composite track is produced only for a
  non-empty list of playable segments.
\<close>

lemma renderTrack_only:
  assumes "renderTrack segs = Inr track"
  shows "segs \<noteq> [] \<and> list_all playable segs"
proof -
  from assms obtain ds m ctx ctx' where
    d: "decodeSegments segs 0 = Inr (ds, m)"
    and c: "OfflineAudioContext 1 (real_of_int \<lceil>binary64 (m * 24000)\<rceil>) 24000 = Inr ctx"
    and s: "scheduleSources ctx ds = Inr ctx'"
    by (auto simp: renderTrack_def split: sum.splits prod.splits)
  have dec: "list_all decodable segs" using d by (rule decodeSegments_only)
  from decodeSegments_ok[OF dec, of 0] d obtain
    "map snd ds = map startTime segs" "m = Max (insert 0 (segmentEnd ` set segs))" by auto
  moreover have "list_all (\<lambda>w. 0 \<le> w) (map snd ds)" using s by (rule scheduleSources_only)
  moreover have "0 < nat \<lceil>binary64 (m * 24000)\<rceil>" using c by (auto simp: OfflineAudioContext_def Let_def split: if_splits)
  ultimately show ?thesis using dec
    by (auto simp: list_all_iff playable_def decodable_def binary64_zero)
qed

text \<open>
  Claim C2, as stated: stitching the empty list succeeds with an asset of zero
  duration. With no segment \<open>maxDuration\<close> stays 0, the offline context is asked for
  \<open>ceil(0 * 24000) = 0\<close> frames, and the constructor throws.
\<close>

theorem stitchAudio_empty_fails: "\<not> succeeds (stitchAudio [])"
  by (simp add: stitchAudio_def renderTrack_def OfflineAudioContext_def succeeds_def binary64_zero)

text \<open>
  Claim C2, amended: stitching the empty list of segments raises \<open>NotSupportedError\<close>
  and yields no asset.
\<close>

theorem stitchAudio_empty: "stitchAudio [] = Inl NotSupportedError"
  by (simp add: stitchAudio_def renderTrack_def OfflineAudioContext_def binary64_zero)




section \<open>Properties of the App handlers\<close>












section \<open>Properties of the sync controller\<close>

lemma abs_binary64: "\<bar>binary64 d\<bar> = binary64 \<bar>d\<bar>"
proof (cases "0 \<le> d")
  case True
  then show ?thesis using binary64_nonneg[of d] by simp
next
  case False
  then have "0 \<le> binary64 (- d)" by (intro binary64_nonneg) simp
  then show ?thesis using False by (simp add: binary64_uminus)
qed

lemma drift_small:
  assumes "\<bar>d\<bar> \<le> 1 / 4"
  shows "\<bar>binary64 d\<bar> \<le> 1 / 4"
proof (cases "d = 0")
  case True
  then show ?thesis by (simp add: binary64_zero)
next
  case False
  then have "0 < \<bar>d\<bar>" by simp
  moreover have "\<bar>d\<bar> \<le> 2 powi (- 2)" using assms by (simp add: power_int_minus_divide)
  ultimately have "binary64 \<bar>d\<bar> \<le> 2 powi (- 2)" by (rule binary64_upper) simp
  then show ?thesis by (simp add: abs_binary64 power_int_minus_divide)
qed

lemma drift_large:
  assumes "1 / 4 + 1 / 2 ^ 55 < \<bar>d\<bar>"
  shows "1 / 4 < \<bar>binary64 d\<bar>"
proof (cases "1 / 2 \<le> \<bar>d\<bar>")
  case True
  then have "2 powi (- 1) \<le> \<bar>d\<bar>" by (simp add: power_int_minus_divide)
  then have "2 powi (- 1) \<le> binary64 \<bar>d\<bar>" by (rule binary64_lower) simp
  then show ?thesis by (simp add: abs_binary64 power_int_minus_divide)
next
  case False
  define x where "x = \<bar>d\<bar>"
  have x: "1 / 4 + 1 / 2 ^ 55 < x" "x < 1 / 2" using assms False by (simp_all add: x_def)
  have lo: "2 powi (- 2) \<le> \<bar>x\<bar>" and hi: "\<bar>x\<bar> < 2 powi (- 2 + 1)"
    using x by (simp_all add: power_int_minus_divide)
  have e: "exponent x = - 2" using lo hi by (rule exponent_eqI)
  have x0: "x \<noteq> 0" using x by auto
  have b: "binary64 x = of_int (roundTiesToEven (x * 2 ^ 54)) / 2 ^ 54"
    using x0 by (simp add: binary64_def e Let_def power_int_minus_divide)
  have "real_of_int (2 ^ 52) + 1 / 2 < x * 2 ^ 54" using x(1) by simp
  then have "2 ^ 52 + 1 \<le> roundTiesToEven (x * 2 ^ 54)" by (rule round_above_half)
  then have "real_of_int (2 ^ 52 + 1) \<le> of_int (roundTiesToEven (x * 2 ^ 54))"
    by (simp only: of_int_le_iff)
  then have "1 / 4 < binary64 x" unfolding b by (simp add: field_simps)
  then show ?thesis by (simp add: abs_binary64 x_def)
qed

text \<open>
  Claim C6, as stated: a drift above 0.25 s sets the audio position to the video
  position. With the video at \<open>0.25 + 2^-54\<close> and the audio at \<open>2^-55\<close> the drift is
  \<open>0.25 + 2^-55\<close>, the double difference is a tie that rounds to exactly 0.25, and the
  audio is left where it is.
\<close>

theorem syncLoop_rounds_to_threshold:
  "1 / 4 < \<bar>(1 / 4 + 1 / 2 ^ 54) - 1 / 2 ^ 55 :: real\<bar>
   \<and> audioRef (syncLoop (mounted \<lparr>currentTime = 1 / 4 + 1 / 2 ^ 54, paused = False\<rparr>
                                 \<lparr>currentTime = 1 / 2 ^ 55, paused = False\<rparr> 0))
       = Some \<lparr>currentTime = 1 / 2 ^ 55, paused = False\<rparr>"
proof -
  have d: "binary64 (1 / 4 + 1 / 2 ^ 54 - 1 / 2 ^ 55) = 1 / 4"
    by (rule binary64_eqI[of "- 2" _ 4503599627370496])
       (simp_all add: power_int_minus_divide roundTiesToEven_def Let_def)
  have "audioRef (syncLoop (mounted \<lparr>currentTime = 1 / 4 + 1 / 2 ^ 54, paused = False\<rparr>
                                 \<lparr>currentTime = 1 / 2 ^ 55, paused = False\<rparr> 0))
       = Some (if \<bar>binary64 (1 / 4 + 1 / 2 ^ 54 - 1 / 2 ^ 55)\<bar> > 1 / 4
               then \<lparr>currentTime = 1 / 4 + 1 / 2 ^ 54, paused = False\<rparr>
               else \<lparr>currentTime = 1 / 2 ^ 55, paused = False\<rparr>)"
    by (simp add: syncLoop_def mounted_def requestAnimationFrame_def Let_def)
  also have "\<dots> = Some \<lparr>currentTime = 1 / 2 ^ 55, paused = False\<rparr>"
    by (simp only: d) simp
  finally show ?thesis by simp
qed

text \<open>
  Claim C6, amended: on a sync check with the video playing, the audio position is set
  to the video position, in that same check, exactly when the double
  \<open>Math.abs(videoTime - audioTime)\<close> exceeds 0.25. So a drift of at most 0.25 s leaves
  the audio element as it is, and a drift of more than \<open>0.25 + 2^-55\<close> s sets the audio
  position to the video position.
\<close>

theorem syncLoop_threshold:
  assumes "videoRef st = Some video" "audioRef st = Some audio" "\<not> paused video"
  shows "audioRef (syncLoop st) =
           Some (if \<bar>binary64 (currentTime video - currentTime audio)\<bar> > 1 / 4
                 then audio\<lparr>currentTime := currentTime video\<rparr> else audio)
       \<and> (\<bar>currentTime video - currentTime audio\<bar> \<le> 1 / 4
            \<longrightarrow> audioRef (syncLoop st) = Some audio)
       \<and> (1 / 4 + 1 / 2 ^ 55 < \<bar>currentTime video - currentTime audio\<bar>
            \<longrightarrow> audioRef (syncLoop st) = Some (audio\<lparr>currentTime := currentTime video\<rparr>))"
proof -
  let ?d = "currentTime video - currentTime audio"
  have e: "audioRef (syncLoop st) =
           Some (if \<bar>binary64 ?d\<bar> > 1 / 4 then audio\<lparr>currentTime := currentTime video\<rparr> else audio)"
    using assms by (simp add: syncLoop_def requestAnimationFrame_def Let_def)
  have s: "\<bar>?d\<bar> \<le> 1 / 4 \<Longrightarrow> \<not> \<bar>binary64 ?d\<bar> > 1 / 4" using drift_small[of ?d] by simp
  have l: "1 / 4 + 1 / 2 ^ 55 < \<bar>?d\<bar> \<Longrightarrow> \<bar>binary64 ?d\<bar> > 1 / 4" using drift_large[of ?d] by simp
  show ?thesis unfolding e using s l by simp
qed

text \<open>
  The video at 1 and the audio at the doubles written 0.8 and 0.7: drifts of 0.2 s and
  0.3 s.
\<close>

theorem syncLoop_threshold_witness:
  "audioRef (syncLoop (mounted \<lparr>currentTime = 1, paused = False\<rparr>
        \<lparr>currentTime = 3602879701896397 / 4503599627370496, paused = False\<rparr> 0))
     = Some \<lparr>currentTime = 3602879701896397 / 4503599627370496, paused = False\<rparr>
   \<and> audioRef (syncLoop (mounted \<lparr>currentTime = 1, paused = False\<rparr>
        \<lparr>currentTime = 3152519739159347 / 4503599627370496, paused = False\<rparr> 0))
     = Some \<lparr>currentTime = 1, paused = False\<rparr>"
proof -
  let ?video = "\<lparr>currentTime = 1, paused = False\<rparr>"
  let ?near = "\<lparr>currentTime = 3602879701896397 / 4503599627370496, paused = False\<rparr>"
  let ?far = "\<lparr>currentTime = 3152519739159347 / 4503599627370496, paused = False\<rparr>"
  have "audioRef (syncLoop (mounted ?video ?near 0)) = Some ?near"
    using syncLoop_threshold[of "mounted ?video ?near 0" ?video ?near, THEN conjunct2, THEN conjunct1]
    by (simp add: mounted_def)
  moreover have "audioRef (syncLoop (mounted ?video ?far 0)) = Some ?video"
    using syncLoop_threshold[of "mounted ?video ?far 0" ?video ?far, THEN conjunct2, THEN conjunct2]
    by (simp add: mounted_def)
  ultimately show ?thesis ..
qed

text \<open>
  Claim C7: the \<open>seeked\<close> handler sets the audio position to the video position
  whatever the two positions are.
\<close>

theorem handleSeeked_resync:
  assumes "videoRef st = Some video" "audioRef st = Some audio"
  shows "audioRef (handleSeeked st) = Some (audio\<lparr>currentTime := currentTime video\<rparr>)"
  using assms by (simp add: handleSeeked_def)

theorem handleSeeked_resync_witness:
  "audioRef (fire Seeked (mounted \<lparr>currentTime = 5, paused = False\<rparr> \<lparr>currentTime = 499 / 100, paused = False\<rparr> 0))
     = Some \<lparr>currentTime = 5, paused = False\<rparr>"
  using handleSeeked_resync[of "mounted \<lparr>currentTime = 5, paused = False\<rparr> \<lparr>currentTime = 499 / 100, paused = False\<rparr> 0"
          "\<lparr>currentTime = 5, paused = False\<rparr>" "\<lparr>currentTime = 499 / 100, paused = False\<rparr>"]
  by (simp add: mounted_def fire_def)

lemma cancelPending_clears:
  "tokens_ok st \<Longrightarrow> callbacks (cancelPending st) = []"
  by (auto simp: tokens_ok_def cancelPending_def cancelAnimationFrame_def split: option.splits)

lemma cancelPending_fields:
  "videoRef (cancelPending st) = videoRef st" "audioRef (cancelPending st) = audioRef st"
  "listening (cancelPending st) = listening st" "animationFrameId (cancelPending st) = animationFrameId st"
  "handleCounter (cancelPending st) = handleCounter st"
  by (auto simp: cancelPending_def cancelAnimationFrame_def split: option.splits)

lemma handlePlay_callbacks:
  assumes "tokens_ok st" "videoRef st = Some video" "audioRef st = Some audio"
  shows "callbacks (handlePlay st) = [handleCounter st + 1]"
    and "animationFrameId (handlePlay st) = Some (handleCounter st + 1)"
    and "listening (handlePlay st) = listening st"
    and "videoRef (handlePlay st) = videoRef st"
    and "audioRef (handlePlay st) \<noteq> None"
proof -
  let ?st1 = "st\<lparr>audioRef := Some (audio\<lparr>currentTime := currentTime video, paused := False\<rparr>)\<rparr>"
  have ok1: "tokens_ok ?st1" using assms(1) by (simp add: tokens_ok_def)
  have c: "callbacks (cancelPending ?st1) = []" by (rule cancelPending_clears[OF ok1])
  have e: "handlePlay st = (case requestAnimationFrame (cancelPending ?st1) of
                             (h, st') \<Rightarrow> st'\<lparr>animationFrameId := Some h\<rparr>)"
    using assms(2,3) by (simp add: handlePlay_def Let_def)
  show "callbacks (handlePlay st) = [handleCounter st + 1]"
    and "animationFrameId (handlePlay st) = Some (handleCounter st + 1)"
    and "listening (handlePlay st) = listening st"
    and "videoRef (handlePlay st) = videoRef st"
    and "audioRef (handlePlay st) \<noteq> None"
    unfolding e by (simp_all add: requestAnimationFrame_def Let_def c cancelPending_fields)
qed

lemma handlePauseOrEnd_callbacks:
  assumes "tokens_ok st" "audioRef st = Some audio"
  shows "callbacks (handlePauseOrEnd st) = []"
    and "listening (handlePauseOrEnd st) = listening st"
    and "videoRef (handlePauseOrEnd st) = videoRef st"
    and "audioRef (handlePauseOrEnd st) \<noteq> None"
proof -
  let ?st1 = "st\<lparr>audioRef := Some (audio\<lparr>paused := True\<rparr>)\<rparr>"
  have ok1: "tokens_ok ?st1" using assms(1) by (simp add: tokens_ok_def)
  have e: "handlePauseOrEnd st = cancelPending ?st1" using assms(2) by (simp add: handlePauseOrEnd_def)
  show "callbacks (handlePauseOrEnd st) = []"
    and "listening (handlePauseOrEnd st) = listening st"
    and "videoRef (handlePauseOrEnd st) = videoRef st"
    and "audioRef (handlePauseOrEnd st) \<noteq> None"
    unfolding e using cancelPending_clears[OF ok1] by (simp_all add: cancelPending_fields)
qed

lemma cleanup_callbacks:
  assumes "tokens_ok st"
  shows "callbacks (cleanup st) = []" and "listening (cleanup st) = False"
proof -
  have ok1: "tokens_ok (st\<lparr>listening := False\<rparr>)" using assms by (simp add: tokens_ok_def)
  show "callbacks (cleanup st) = []" and "listening (cleanup st) = False"
    unfolding cleanup_def using cancelPending_clears[OF ok1] by (simp_all add: cancelPending_fields)
qed

lemma syncLoop_inv:
  assumes "callbacks st = []"
  shows "tokens_ok (syncLoop st)" and "listening (syncLoop st) = listening st"
    and "videoRef (syncLoop st) = videoRef st"
    and "(audioRef (syncLoop st) = None) = (audioRef st = None)"
  using assms
  by (auto simp: syncLoop_def tokens_ok_def requestAnimationFrame_def Let_def
           split: option.splits)

lemma runFrame_cases:
  assumes "tokens_ok st"
  shows "runFrame st = st \<and> callbacks st = [] \<or>
         (\<exists>h. callbacks st = [h] \<and> runFrame st = syncLoop (st\<lparr>callbacks := []\<rparr>))"
  using assms by (auto simp: tokens_ok_def runFrame_def)

lemma runFrame_inv:
  assumes "player_inv st"
  shows "player_inv (runFrame st)"
proof -
  from assms have ok: "tokens_ok st" by (simp add: player_inv_def)
  from runFrame_cases[OF ok] show ?thesis
  proof
    assume "runFrame st = st \<and> callbacks st = []"
    then show ?thesis using assms by simp
  next
    assume "\<exists>h. callbacks st = [h] \<and> runFrame st = syncLoop (st\<lparr>callbacks := []\<rparr>)"
    then obtain h where h: "callbacks st = [h]" and r: "runFrame st = syncLoop (st\<lparr>callbacks := []\<rparr>)"
      by blast
    have l: "listening st" using assms h by (auto simp: player_inv_def split: if_splits)
    have c: "callbacks (st\<lparr>callbacks := []\<rparr>) = []" by simp
    show ?thesis unfolding r player_inv_def
      using syncLoop_inv[OF c] assms l by (auto simp: player_inv_def)
  qed
qed

lemma fire_inv:
  assumes "player_inv st"
  shows "player_inv (fire e st)"
proof (cases "listening st")
  case False
  then have c: "callbacks st = []" and ok: "tokens_ok st" using assms by (auto simp: player_inv_def)
  show ?thesis
  proof (cases e)
    case Frame
    then show ?thesis using runFrame_inv[OF assms] by (simp add: fire_def)
  next
    case Unmount
    then show ?thesis using cleanup_callbacks[OF ok]
      by (simp add: fire_def player_inv_def tokens_ok_def)
  next
    case OtherRequest
    then show ?thesis using assms by (simp add: fire_def player_inv_def tokens_ok_def)
  qed (use assms False in \<open>simp_all add: fire_def\<close>)
next
  case True
  from assms True obtain video audio where v: "videoRef st = Some video" and a: "audioRef st = Some audio"
    and ok: "tokens_ok st" by (auto simp: player_inv_def)
  show ?thesis
  proof (cases e)
    case Play
    then show ?thesis using handlePlay_callbacks[OF ok v a] True v
      by (simp add: fire_def player_inv_def tokens_ok_def)
  next
    case Pause
    then show ?thesis using handlePauseOrEnd_callbacks[OF ok a] True v
      by (simp add: fire_def player_inv_def tokens_ok_def)
  next
    case Ended
    then show ?thesis using handlePauseOrEnd_callbacks[OF ok a] True v
      by (simp add: fire_def player_inv_def tokens_ok_def)
  next
    case Seeked
    then show ?thesis using assms True v a
      by (simp add: fire_def player_inv_def tokens_ok_def handleSeeked_def)
  next
    case Frame
    then show ?thesis using runFrame_inv[OF assms] by (simp add: fire_def)
  next
    case Unmount
    then show ?thesis using cleanup_callbacks[OF ok]
      by (simp add: fire_def player_inv_def tokens_ok_def)
  next
    case OtherRequest
    then show ?thesis using assms by (simp add: fire_def player_inv_def tokens_ok_def)
  next
    case (Transport v' a')
    then show ?thesis using assms True by (simp add: fire_def player_inv_def tokens_ok_def)
  qed
qed

lemma reachable_inv: "reachable st \<Longrightarrow> player_inv st"
proof (induction rule: reachable.induct)
  case (start video audio n)
  show ?case by (simp add: mounted_def player_inv_def tokens_ok_def)
next
  case (step st e)
  then show ?case by (simp add: fire_inv)
qed

text \<open>
  In a reachable state the scheduled check is the call of \<open>syncLoop\<close>, and a
  \<open>seeked\<close> event that is still listened to finds both elements.
\<close>

lemma frame_event_check:
  assumes "reachable st" "callbacks st \<noteq> []"
  shows "fire Frame st = syncLoop (st\<lparr>callbacks := []\<rparr>)"
proof -
  have "tokens_ok st" using reachable_inv[OF assms(1)] by (simp add: player_inv_def)
  from runFrame_cases[OF this] assms(2) show ?thesis by (auto simp: fire_def)
qed

lemma seeked_event_resync:
  assumes "reachable st" "listening st"
  shows "\<exists>video audio. videoRef st = Some video \<and> audioRef st = Some audio
           \<and> audioRef (fire Seeked st) = Some (audio\<lparr>currentTime := currentTime video\<rparr>)"
proof -
  from reachable_inv[OF assms(1)] assms(2) obtain video audio
    where "videoRef st = Some video" "audioRef st = Some audio"
    by (auto simp: player_inv_def)
  then show ?thesis using assms(2) by (simp add: fire_def handleSeeked_def)
qed

text \<open>
  Claim C8: in every reachable state at most one check is pending; \<open>play\<close> leaves
  exactly the newly scheduled one (the previous one is cancelled first), and \<open>pause\<close>,
  \<open>ended\<close> and the unmount leave none.
\<close>

theorem single_token:
  assumes "reachable st"
  shows "length (callbacks st) \<le> 1
       \<and> callbacks (fire Play st) = (if listening st then [handleCounter st + 1] else [])
       \<and> callbacks (fire Pause st) = []
       \<and> callbacks (fire Ended st) = []
       \<and> callbacks (fire Unmount st) = []"
proof -
  from reachable_inv[OF assms] have inv: "player_inv st" .
  then have ok: "tokens_ok st" by (simp add: player_inv_def)
  have one: "length (callbacks st) \<le> 1" using ok by (auto simp: tokens_ok_def)
  have un: "callbacks (fire Unmount st) = []"
    using cleanup_callbacks[OF ok] by (simp add: fire_def)
  show ?thesis
  proof (cases "listening st")
    case False
    then have "callbacks st = []" using inv by (simp add: player_inv_def)
    then show ?thesis using False un by (simp add: fire_def)
  next
    case True
    from inv True obtain video audio where v: "videoRef st = Some video" and a: "audioRef st = Some audio"
      by (auto simp: player_inv_def)
    show ?thesis using one un True handlePlay_callbacks(1)[OF ok v a] handlePauseOrEnd_callbacks(1)[OF ok a]
      by (simp add: fire_def)
  qed
qed

lemma playing_eq: "playing = \<lparr>videoRef = Some \<lparr>currentTime = 0, paused = False\<rparr>,
     audioRef = Some \<lparr>currentTime = 0, paused = False\<rparr>, animationFrameId = Some 1,
     callbacks = [1], handleCounter = 1, listening = True\<rparr>"
  by (simp add: playing_def fire_def mounted_def handlePlay_def cancelPending_def
        requestAnimationFrame_def Let_def)

theorem single_token_witness:
  "reachable playing
   \<and> callbacks playing = [1]
   \<and> callbacks (fire Play playing) = [2]
   \<and> callbacks (fire Pause playing) = []
   \<and> callbacks (fire Ended playing) = []
   \<and> callbacks (fire Unmount playing) = []"
proof -
  have r: "reachable playing" unfolding playing_def by (rule reachable.step[OF reachable.start])
  show ?thesis using r single_token[OF r] by (simp add: playing_eq)
qed

end
